theory Spec2Isabelle
  imports Main "HOL-Library.Sublist"
begin

section \<open>Go strings: indexing, slicing and the strings package\<close>

text \<open>
  A Go string is a sequence of bytes; it is modelled as \<open>string\<close> (a list of 8-bit
  characters).  An index expression \<open>s[i]\<close> and a slice expression \<open>s[i:]\<close>, \<open>s[:j]\<close>
  panic at run time when the index is out of range, so each of them returns
  \<open>panic + value\<close>, with \<open>Inl\<close> for the panic.
\<close>

datatype panic = IndexOutOfRange | SliceOutOfRange

text \<open>Sequencing of computations that may panic: the first panic is the result.\<close>

definition pbind :: "panic + 'a \<Rightarrow> ('a \<Rightarrow> panic + 'b) \<Rightarrow> panic + 'b" where
  "pbind x f = (case x of Inl e \<Rightarrow> Inl e | Inr v \<Rightarrow> f v)"

text \<open>\<open>s[i]\<close>, for a string or a slice of strings.\<close>

definition at :: "'a list \<Rightarrow> int \<Rightarrow> panic + 'a" where
  "at s i = (if 0 \<le> i \<and> i < int (length s) then Inr (s ! nat i) else Inl IndexOutOfRange)"

text \<open>\<open>s[i:]\<close>\<close>

definition slice_from :: "string \<Rightarrow> int \<Rightarrow> panic + string" where
  "slice_from s i =
     (if 0 \<le> i \<and> i \<le> int (length s) then Inr (drop (nat i) s) else Inl SliceOutOfRange)"

text \<open>\<open>s[:j]\<close>\<close>

definition slice_to :: "string \<Rightarrow> int \<Rightarrow> panic + string" where
  "slice_to s j =
     (if 0 \<le> j \<and> j \<le> int (length s) then Inr (take (nat j) s) else Inl SliceOutOfRange)"

text \<open>
  \<open>strings.Index(s, substr)\<close>: the index of the first instance of \<open>substr\<close> in \<open>s\<close>, or
  \<open>-1\<close> if \<open>substr\<close> is not present in \<open>s\<close>.
\<close>

fun Index :: "string \<Rightarrow> string \<Rightarrow> int" where
  "Index [] substr = (if substr = [] then 0 else - 1)"
| "Index (c # s) substr =
     (if prefix substr (c # s) then 0
      else (let i = Index s substr in if i < 0 then - 1 else i + 1))"

text \<open>
  \<open>strings.Count(s, substr)\<close>: the number of non-overlapping instances of a non-empty
  \<open>substr\<close> in \<open>s\<close>.  (For the empty \<open>substr\<close> Go counts code points; the program never
  passes an empty separator and that branch is not modelled.)
\<close>

function Count :: "string \<Rightarrow> string \<Rightarrow> nat" where
  "Count s substr =
     (let i = Index s substr in
      if i < 0 \<or> substr = [] then 0
      else 1 + Count (drop (nat i + length substr) s) substr)"
  by pat_completeness auto
termination
proof (relation "measure (\<lambda>(s, substr). length s)")
  show "wf (measure (\<lambda>(s, substr). length s))" by simp
next
  fix s substr :: string and i :: int
  assume i: "i = Index s substr" and ok: "\<not> (i < 0 \<or> substr = [])"
  have "s \<noteq> []"
  proof
    assume "s = []"
    with i ok show False by (cases "substr = []") simp_all
  qed
  moreover from ok have "0 < length substr" by simp
  ultimately show "((drop (nat i + length substr) s, substr), (s, substr))
      \<in> measure (\<lambda>(s, substr). length s)"
    by simp
qed

text \<open>
  The loop of \<open>strings.genSplit(s, sep, 0, n)\<close> for a non-empty separator, with \<open>k = n - 1\<close>
  the number of cuts still allowed: cut at the first separator while one is found and a
  cut is allowed; the rest of the string is the last element.
\<close>

fun genSplit :: "string \<Rightarrow> string \<Rightarrow> nat \<Rightarrow> string list" where
  "genSplit s sep 0 = [s]"
| "genSplit s sep (Suc k) =
     (let m = Index s sep in
      if m < 0 then [s]
      else take (nat m) s # genSplit (drop (nat m + length sep) s) sep k)"

text \<open>
  \<open>strings.SplitN(s, sep, n)\<close> for a non-empty \<open>sep\<close>: \<open>n = 0\<close> gives no elements, \<open>n < 0\<close>
  all substrings (\<open>Count(s, sep) + 1\<close> of them), \<open>n > 0\<close> at most \<open>n\<close> substrings, and never
  more than \<open>len(s) + 1\<close>.  \<open>strings.Split(s, sep)\<close> is \<open>SplitN\<close> with \<open>n = -1\<close>; for
  \<open>n \<noteq> 0\<close> the slice returned is allocated with \<open>make\<close> and is never nil.
\<close>

definition SplitN :: "string \<Rightarrow> string \<Rightarrow> int \<Rightarrow> string list" where
  "SplitN s sep n =
     (if n = 0 then []
      else if n < 0 then genSplit s sep (Count s sep)
      else genSplit s sep (nat (min n (int (length s) + 1)) - 1))"

definition Split :: "string \<Rightarrow> string \<Rightarrow> string list" where
  "Split s sep = SplitN s sep (- 1)"

section \<open>The message parser (src/irc/irc.go)\<close>

text \<open>
  This section follows \<open>src/irc/irc.go\<close>.  The file \<open>src/unnamed/part_000\<close> holds two
  earlier revisions of \<open>irc.go\<close>; the \<open>ParseMessage\<close> of the older one is modelled in the
  next section.

  \<open>Message.Params\<close> is a slice, which may be nil, and \<open>Message.Prefix\<close> is a pointer,
  which may be nil: both are options, \<open>None\<close> for nil.
\<close>

record Prefix =
  Name :: string
  User :: string
  Host :: string

record Message =
  Command :: string
  Params :: "string list option"
  Prefix :: "Prefix option"
  Raw :: string
  Txt :: string

text \<open>The closure \<open>split2\<close> of \<open>ParseMessage\<close>.\<close>

definition split2 :: "string \<Rightarrow> string \<Rightarrow> panic + (string \<times> string)" where
  "split2 s sep =
     (let parts = SplitN s sep 2 in
      if length parts = 2
      then pbind (at parts 0) (\<lambda>a. pbind (at parts 1) (\<lambda>b. Inr (a, b)))
      else pbind (at parts 0) (\<lambda>a. Inr (a, [])))"

text \<open>
  The closure \<open>parsePrefix\<close>.  \<open>new(Prefix)\<close> is the prefix with three empty fields; the
  test \<open>l == "" || l[0] != ':'\<close> reads \<open>l[0]\<close> only when \<open>l\<close> is not empty.
\<close>

definition parsePrefix :: "string \<Rightarrow> panic + (Prefix \<times> string)" where
  "parsePrefix l =
     (let prefix0 = \<lparr>Name = [], User = [], Host = []\<rparr> in
      if l = [] then Inr (prefix0, l)
      else pbind (at l 0) (\<lambda>c.
        if c \<noteq> CHR '':'' then Inr (prefix0, l)
        else pbind (slice_from l 1) (\<lambda>l1.
          pbind (split2 l1 '' '') (\<lambda>(head0, tail).
            let user = Index head0 ''!''; host = Index head0 ''@'' in
            pbind (if host > user
                   then pbind (slice_from head0 (host + 1)) (\<lambda>h.
                          pbind (slice_to head0 host) (\<lambda>head1.
                            Inr (prefix0\<lparr>Host := h\<rparr>, head1)))
                   else Inr (prefix0, head0)) (\<lambda>(prefix1, head1).
            pbind (if user > 0
                   then pbind (slice_from head1 (user + 1)) (\<lambda>u.
                          pbind (slice_to head1 user) (\<lambda>head2.
                            Inr (prefix1\<lparr>User := u\<rparr>, head2)))
                   else Inr (prefix1, head1)) (\<lambda>(prefix2, head2).
            Inr (prefix2\<lparr>Name := head2\<rparr>, tail)))))))"

text \<open>The closure \<open>parseCommand\<close>.\<close>

definition parseCommand :: "string \<Rightarrow> panic + (string \<times> string)" where
  "parseCommand l = split2 l '' ''"

text \<open>The closure \<open>parseParams\<close>; \<open>[]string{}\<close> is an empty slice that is not nil.\<close>

definition parseParams :: "string \<Rightarrow> panic + (string list option \<times> string)" where
  "parseParams l =
     (if l = [] then Inr (Some [], l)
      else pbind (at l 0) (\<lambda>c.
        if c = CHR '':'' then Inr (Some [], l)
        else pbind (split2 l '' :'') (\<lambda>(head0, tail).
          Inr (Some (Split head0 '' ''), tail))))"

text \<open>\<open>ParseMessage\<close>; the pointer it returns is never nil, so the result is the message.\<close>

definition ParseMessage :: "string \<Rightarrow> panic + Message" where
  "ParseMessage l =
     pbind (parsePrefix l) (\<lambda>(p, l1).
     pbind (parseCommand l1) (\<lambda>(cmd, l2).
     pbind (parseParams l2) (\<lambda>(ps, l3).
     pbind (if l3 \<noteq> []
            then pbind (at l3 0) (\<lambda>c. if c = CHR '':'' then slice_from l3 1 else Inr l3)
            else Inr l3) (\<lambda>l4.
     Inr \<lparr>Command = cmd, Params = ps, Prefix = Some p, Raw = l, Txt = l4\<rparr>))))"

section \<open>The message parser of an earlier revision (src/unnamed/part_000, lines 137-171)\<close>

text \<open>\<open>s[i:j]\<close>\<close>

definition slice :: "string \<Rightarrow> int \<Rightarrow> int \<Rightarrow> panic + string" where
  "slice s i j =
     (if 0 \<le> i \<and> i \<le> j \<and> j \<le> int (length s)
      then Inr (take (nat (j - i)) (drop (nat i) s)) else Inl SliceOutOfRange)"

text \<open>
  The \<open>Message\<close> of that revision: the prefix is a string, and the user has a field of
  its own.  The names carry the suffix \<open>_old\<close>, the current file having the same ones.
\<close>

record Message_old =
  Command_old :: string
  Params_old :: "string list option"
  Prefix_old :: string
  Raw_old :: string
  User_old :: string
  Txt_old :: string

text \<open>
  \<open>ParseMessage\<close> as that revision has it.  It reads \<open>l[0]\<close> first, whatever \<open>l\<close> is; it
  returns as soon as a \<open>SplitN\<close> gives one part only (\<open>rest = None\<close> below is the return
  inside the parameter branch); \<open>Params\<close> stays nil unless the parameter branch is taken;
  and a leading colon is stripped from the text only when something follows it.
\<close>

definition ParseMessage_old :: "string \<Rightarrow> panic + Message_old" where
  "ParseMessage_old l0 =
     (let msg0 = \<lparr>Command_old = [], Params_old = None, Prefix_old = [], Raw_old = l0,
                   User_old = [], Txt_old = []\<rparr> in
      pbind (at l0 0) (\<lambda>c0.
      pbind (if c0 = CHR '':''
             then (let i = Index l0 '' '' in
                   pbind (if i > - 1
                          then pbind (slice l0 1 i) (\<lambda>p.
                                 pbind (slice l0 (i + 1) (int (length l0))) (\<lambda>l1.
                                   Inr (msg0\<lparr>Prefix_old := p\<rparr>, l1)))
                          else Inr (msg0, l0)) (\<lambda>(msg1, l1).
                   let j = Index (Prefix_old msg1) ''!'' in
                   if j > - 1
                   then pbind (slice (Prefix_old msg1) (j + 1) (Index (Prefix_old msg1) ''@''))
                          (\<lambda>u. Inr (msg1\<lparr>User_old := u\<rparr>, l1))
                   else Inr (msg1, l1)))
             else Inr (msg0, l0)) (\<lambda>(msg2, l2).
      let parts = SplitN l2 '' '' 2 in
      pbind (at parts 0) (\<lambda>cmd.
      let msg3 = msg2\<lparr>Command_old := cmd\<rparr> in
      if length parts = 1 then Inr msg3
      else pbind (at parts 1) (\<lambda>l3.
        pbind (at l3 0) (\<lambda>c3.
        pbind (if c3 \<noteq> CHR '':''
               then (let parts2 = SplitN l3 '' :'' 2 in
                     pbind (at parts2 0) (\<lambda>h.
                     let msg4 = msg3\<lparr>Params_old := Some (Split h '' '')\<rparr> in
                     if length parts2 = 1 then Inr (msg4, None)
                     else pbind (at parts2 1) (\<lambda>l4. Inr (msg4, Some l4))))
               else Inr (msg3, Some l3)) (\<lambda>(msg5, rest).
        case rest of
          None \<Rightarrow> Inr msg5
        | Some l5 \<Rightarrow>
            if length l5 > 0
            then pbind (at l5 0) (\<lambda>c5.
                   if c5 = CHR '':'' \<and> length l5 > 1
                   then pbind (slice_from l5 1) (\<lambda>t. Inr (msg5\<lparr>Txt_old := t\<rparr>))
                   else Inr (msg5\<lparr>Txt_old := l5\<rparr>))
            else Inr msg5)))))))"

section \<open>The connection (src/irc/irc.go)\<close>

subsection \<open>The stream and its buffered reader\<close>

text \<open>
  \<open>io.ReadWriteCloser\<close> is an interface: a connection works over any implementation of
  it.  An implementation is a record of the three methods over the stream's own state
  \<open>'s\<close>.  Each method returns the new state with its results, or \<open>None\<close> when the call
  never returns (a read that blocks for ever).  \<open>Read(p)\<close> is given \<open>len(p)\<close> and returns
  the bytes it stored in \<open>p\<close> (at most \<open>len(p)\<close> of them) and an error or nil; \<open>Write(p)\<close>
  returns the number of bytes written and an error or nil.
\<close>

datatype error = ErrNoProgress | StreamError string

record 's ReadWriteCloser =
  Read_rwc :: "nat \<Rightarrow> 's \<Rightarrow> ((string \<times> error option) \<times> 's) option"
  Write_rwc :: "string \<Rightarrow> 's \<Rightarrow> ((nat \<times> error option) \<times> 's) option"
  Close_rwc :: "'s \<Rightarrow> (error option \<times> 's) option"

text \<open>
  \<open>bufio.Reader\<close>, as far as \<open>ReadString\<close> uses it: the bytes read from the stream and not
  yet handed out (\<open>buf[r:w]\<close>), and the error of the last read, kept until it is reported.
  The stream the reader reads from is the connection's \<open>rwc\<close> itself.
\<close>

record Reader =
  buf :: string
  err :: "error option"

definition defaultBufSize :: nat where
  "defaultBufSize = 4096"

text \<open>
  \<open>(*Reader).fill\<close>: read into the free part of the buffer, at most
  \<open>maxConsecutiveEmptyReads = 100\<close> times while the stream returns neither bytes nor an
  error; \<open>fill io i\<close> has \<open>i\<close> attempts left.
\<close>

fun fill :: "'s ReadWriteCloser \<Rightarrow> nat \<Rightarrow> Reader \<Rightarrow> 's \<Rightarrow> (Reader \<times> 's) option" where
  "fill io 0 b s = Some (b\<lparr>err := Some ErrNoProgress\<rparr>, s)"
| "fill io (Suc i) b s =
     (case Read_rwc io (defaultBufSize - length (buf b)) s of
        None \<Rightarrow> None
      | Some ((d, e), s') \<Rightarrow>
          if e \<noteq> None then Some (b\<lparr>buf := buf b @ d, err := e\<rparr>, s')
          else if d \<noteq> [] then Some (b\<lparr>buf := buf b @ d\<rparr>, s')
          else fill io i (b\<lparr>buf := buf b @ d\<rparr>) s')"

text \<open>
  \<open>(*Reader).ReadString(delim)\<close>: the loops of \<open>ReadSlice\<close> and \<open>collectFragments\<close> as one
  loop, with \<open>full\<close> the full buffers already set aside.  If the delimiter is buffered,
  the line up to and including it is returned and the bytes after it stay buffered; if an
  error is pending, the bytes read so far are returned with it; a full buffer without the
  delimiter is set aside; otherwise the buffer is filled from the stream.  The loop need
  not end (a stream may deliver bytes for ever without the delimiter): \<open>None\<close> is a call
  that never returns.
\<close>

partial_function (option) ReadString_loop ::
  "'s ReadWriteCloser \<Rightarrow> char \<Rightarrow> string \<Rightarrow> Reader \<Rightarrow> 's
    \<Rightarrow> ((string \<times> error option) \<times> Reader \<times> 's) option" where
  "ReadString_loop io delim full b s =
     (if delim \<in> set (buf b)
      then Some ((full @ takeWhile (\<lambda>c. c \<noteq> delim) (buf b) @ [delim], None),
                 b\<lparr>buf := tl (dropWhile (\<lambda>c. c \<noteq> delim) (buf b))\<rparr>, s)
      else if err b \<noteq> None
      then Some ((full @ buf b, err b), b\<lparr>buf := [], err := None\<rparr>, s)
      else if length (buf b) \<ge> defaultBufSize
      then ReadString_loop io delim (full @ buf b) (b\<lparr>buf := []\<rparr>) s
      else (case fill io 100 b s of
              None \<Rightarrow> None
            | Some (b', s') \<Rightarrow> ReadString_loop io delim full b' s'))"

declare ReadString_loop.simps [code]

definition ReadString :: "'s ReadWriteCloser \<Rightarrow> char \<Rightarrow> Reader \<Rightarrow> 's
    \<Rightarrow> ((string \<times> error option) \<times> Reader \<times> 's) option" where
  "ReadString io delim b s = ReadString_loop io delim [] b s"

subsection \<open>Conn and its methods\<close>

text \<open>
  The two mutexes are booleans (held or not).  In a sequential run \<open>Lock\<close> on a mutex
  that is held never returns; \<open>Unlock\<close> releases it.  Every method that returns has
  released the lock it took (\<open>defer\<close>).
\<close>

record 's Conn =
  rwc :: 's
  reader :: Reader
  rl :: bool
  wl :: bool

definition Lock :: "bool \<Rightarrow> bool option" where
  "Lock m = (if m then None else Some True)"

definition Unlock :: "bool \<Rightarrow> bool" where
  "Unlock m = False"

text \<open>\<open>NewConn\<close>: \<open>bufio.NewReader\<close> starts with an empty buffer and no pending error.\<close>

definition NewConn :: "'s \<Rightarrow> 's Conn" where
  "NewConn s = \<lparr>rwc = s, reader = \<lparr>buf = [], err = None\<rparr>, rl = False, wl = False\<rparr>"

text \<open>
  A method either panics or returns.  \<open>ReadMsg\<close> returns \<open>(nil, err)\<close> or \<open>(msg, nil)\<close>:
  \<open>Inl err\<close> or \<open>Inr msg\<close>.
\<close>

datatype 'a outcome = Panicked panic | Returned 'a

definition ReadMsg ::
  "'s ReadWriteCloser \<Rightarrow> 's Conn \<Rightarrow> ((error + Message) outcome \<times> 's Conn) option" where
  "ReadMsg io c =
     (case Lock (rl c) of
        None \<Rightarrow> None
      | Some held \<Rightarrow>
          (case ReadString io (CHR 0x0A) (reader c) (rwc c) of
             None \<Rightarrow> None
           | Some ((l, e), b', s') \<Rightarrow>
               let c' = c\<lparr>rwc := s', reader := b', rl := Unlock held\<rparr> in
               (case e of
                  Some x \<Rightarrow> Some (Returned (Inl x), c')
                | None \<Rightarrow>
                    (case ParseMessage l of
                       Inl p \<Rightarrow> Some (Panicked p, c')
                     | Inr m \<Rightarrow> Some (Returned (Inr m), c')))))"

definition Write ::
  "'s ReadWriteCloser \<Rightarrow> string \<Rightarrow> 's Conn \<Rightarrow> ((nat \<times> error option) \<times> 's Conn) option" where
  "Write io msg c =
     (case Lock (wl c) of
        None \<Rightarrow> None
      | Some held \<Rightarrow>
          (case Write_rwc io msg (rwc c) of
             None \<Rightarrow> None
           | Some (r, s') \<Rightarrow> Some (r, c\<lparr>rwc := s', wl := Unlock held\<rparr>)))"

definition Send ::
  "'s ReadWriteCloser \<Rightarrow> string \<Rightarrow> 's Conn \<Rightarrow> (error option \<times> 's Conn) option" where
  "Send io l c =
     (case Write io (l @ [CHR 0x0D, CHR 0x0A]) c of
        None \<Rightarrow> None
      | Some ((n, e), c') \<Rightarrow> Some (e, c'))"

definition Close :: "'s ReadWriteCloser \<Rightarrow> 's Conn \<Rightarrow> (error option \<times> 's Conn) option" where
  "Close io c =
     (case Close_rwc io (rwc c) of
        None \<Rightarrow> None
      | Some (e, s') \<Rightarrow> Some (e, c\<lparr>rwc := s'\<rparr>))"

subsection \<open>Streams that fail once closed\<close>

text \<open>
  \<open>Conn\<close> keeps no record of \<open>Close\<close>: what a method does afterwards is what the stream
  does.  \<open>closed_stream io e s\<close> says that in state \<open>s\<close> every \<open>Read\<close> and every \<open>Write\<close>
  of the stream fails with the error \<open>e\<close>, transfers no byte and leaves the stream as it
  is, as a closed network connection does.  \<open>after_close io c\<close> says that \<open>c\<close> is a state of
  a connection on which \<open>Close\<close> has returned, and after that any number of calls of
  \<open>ReadMsg\<close>, \<open>Write\<close> and \<open>Send\<close>, with no call in flight when \<open>Close\<close> was called.
\<close>

definition closed_stream :: "'s ReadWriteCloser \<Rightarrow> error \<Rightarrow> 's \<Rightarrow> bool" where
  "closed_stream io e s \<longleftrightarrow>
     (\<forall>n. Read_rwc io n s = Some (([], Some e), s)) \<and>
     (\<forall>b. Write_rwc io b s = Some ((0, Some e), s))"

inductive after_close :: "'s ReadWriteCloser \<Rightarrow> 's Conn \<Rightarrow> bool" for io where
  ac_close: "\<not> rl c0 \<Longrightarrow> \<not> wl c0 \<Longrightarrow> Close io c0 = Some (r, c) \<Longrightarrow> after_close io c"
| ac_read: "after_close io c \<Longrightarrow> ReadMsg io c = Some (x, c') \<Longrightarrow> after_close io c'"
| ac_write: "after_close io c \<Longrightarrow> Write io msg c = Some (y, c') \<Longrightarrow> after_close io c'"
| ac_send: "after_close io c \<Longrightarrow> Send io l c = Some (z, c') \<Longrightarrow> after_close io c'"

subsection \<open>A stream for the examples\<close>

text \<open>
  An implementation of the interface in the manner of a network connection, used as the
  concrete stream of the examples below: \<open>inbox\<close> holds the chunks the peer has sent, one
  per arrival, \<open>outbox\<close> the chunks written, one per \<open>Write\<close>.  A read on an open stream
  with nothing to deliver blocks; every call on a closed stream fails.
\<close>

record pipe =
  inbox :: "string list"
  closed :: bool
  outbox :: "string list"

definition ErrClosed :: error where
  "ErrClosed = StreamError ''use of closed network connection''"

definition pipe_Read :: "nat \<Rightarrow> pipe \<Rightarrow> ((string \<times> error option) \<times> pipe) option" where
  "pipe_Read n p =
     (if closed p then Some (([], Some ErrClosed), p)
      else case inbox p of
             [] \<Rightarrow> None
           | d # ds \<Rightarrow>
               Some ((take n d, None),
                     p\<lparr>inbox := (if length d \<le> n then ds else drop n d # ds)\<rparr>))"

definition pipe_Write :: "string \<Rightarrow> pipe \<Rightarrow> ((nat \<times> error option) \<times> pipe) option" where
  "pipe_Write b p =
     (if closed p then Some ((0, Some ErrClosed), p)
      else Some ((length b, None), p\<lparr>outbox := outbox p @ [b]\<rparr>))"

definition pipe_Close :: "pipe \<Rightarrow> (error option \<times> pipe) option" where
  "pipe_Close p =
     (if closed p then Some (Some ErrClosed, p) else Some (None, p\<lparr>closed := True\<rparr>))"

definition pipe_io :: "pipe ReadWriteCloser" where
  "pipe_io = \<lparr>Read_rwc = pipe_Read, Write_rwc = pipe_Write, Close_rwc = pipe_Close\<rparr>"

section \<open>The serialization format of the specification\<close>

text \<open>
  The repository has no serializer.  The format is the one the specification gives for
  its round trip:
  \<open>[":" name ["!" user] ["@" host] " "] command [" " params joined by space] [" :" text]\<close>,
  each optional part included exactly when it is not empty: the user and the host when
  they are not the empty string, the prefix when one of its three fields is not empty,
  the parameters when the sequence has an element, the text when it is not the empty
  string.  \<open>Join\<close> is \<open>strings.Join\<close>.
\<close>

fun Join :: "string list \<Rightarrow> string \<Rightarrow> string" where
  "Join [] sep = []"
| "Join [x] sep = x"
| "Join (x # y # xs) sep = x @ sep @ Join (y # xs) sep"

definition prefix_text :: "Prefix \<Rightarrow> string" where
  "prefix_text p =
     Name p @ (if User p = [] then [] else ''!'' @ User p)
            @ (if Host p = [] then [] else ''@'' @ Host p)"

definition serialize :: "Message \<Rightarrow> string" where
  "serialize m =
     (case Prefix m of
        None \<Rightarrow> []
      | Some p \<Rightarrow>
          if Name p = [] \<and> User p = [] \<and> Host p = [] then []
          else '':'' @ prefix_text p @ '' '')
     @ Command m
     @ (case Params m of
          None \<Rightarrow> []
        | Some ps \<Rightarrow> if ps = [] then [] else '' '' @ Join ps '' '')
     @ (if Txt m = [] then [] else '' :'' @ Txt m)"

text \<open>The four fields the round trip compares.\<close>

definition fields :: "Message \<Rightarrow> string \<times> string list option \<times> Prefix option \<times> string" where
  "fields m = (Command m, Params m, Prefix m, Txt m)"

section \<open>The parser without its panic branches\<close>

text \<open>
  The functions below compute what the closures of \<open>ParseMessage\<close> return when no index
  or slice expression panics.  They are not part of the program: the lemmas of the next
  section show that the program never takes a panic branch and returns these values.
\<close>

definition cut :: "string \<Rightarrow> string \<Rightarrow> string \<times> string" where
  "cut s sep =
     (let m = Index s sep in
      if m < 0 then (s, []) else (take (nat m) s, drop (nat m + length sep) s))"

definition prefix_of :: "string \<Rightarrow> Prefix" where
  "prefix_of h =
     (let user = Index h ''!''; host = Index h ''@'';
          h1 = (if host > user then take (nat host) h else h)
      in \<lparr>Name = (if user > 0 then take (nat user) h1 else h1),
          User = (if user > 0 then drop (Suc (nat user)) h1 else []),
          Host = (if host > user then drop (Suc (nat host)) h else [])\<rparr>)"

definition prefix_part :: "string \<Rightarrow> Prefix \<times> string" where
  "prefix_part l =
     (case l of
        [] \<Rightarrow> (\<lparr>Name = [], User = [], Host = []\<rparr>, l)
      | c # l1 \<Rightarrow>
          if c = CHR '':'' then (prefix_of (fst (cut l1 '' '')), snd (cut l1 '' ''))
          else (\<lparr>Name = [], User = [], Host = []\<rparr>, l))"

definition params_part :: "string \<Rightarrow> string list \<times> string" where
  "params_part l =
     (if l = [] \<or> hd l = CHR '':'' then ([], l)
      else (Split (fst (cut l '' :'')) '' '', snd (cut l '' :'')))"

definition text_part :: "string \<Rightarrow> string" where
  "text_part l = (if l \<noteq> [] \<and> hd l = CHR '':'' then tl l else l)"

definition parse :: "string \<Rightarrow> Message" where
  "parse l =
     (let (p, l1) = prefix_part l; (cmd, l2) = cut l1 '' ''; (ps, l3) = params_part l2
      in \<lparr>Command = cmd, Params = Some ps, Prefix = Some p, Raw = l, Txt = text_part l3\<rparr>)"

text \<open>The serialization of the parameters and the text, as \<open>serialize\<close> appends them.\<close>

definition params_text :: "string list \<Rightarrow> string \<Rightarrow> string" where
  "params_text ps trl =
     (if ps = [] then [] else '' '' @ Join ps '' '') @ (if trl = [] then [] else '' :'' @ trl)"

section \<open>The parser never panics\<close>

lemma pbind_Inr [simp]: "pbind (Inr v) f = f v"
  by (simp add: pbind_def)

lemma pbind_Inl [simp]: "pbind (Inl e) f = Inl e"
  by (simp add: pbind_def)

lemma Index_ge: "- 1 \<le> Index s sub"
  by (induction s) (auto simp: Let_def)

lemma Index_le: "0 \<le> Index s sub \<Longrightarrow> nat (Index s sub) + length sub \<le> length s"
proof (induction s)
  case Nil
  then show ?case by (simp split: if_splits)
next
  case (Cons c s)
  show ?case
  proof (cases "prefix sub (c # s)")
    case True
    then show ?thesis using prefix_length_le[OF True] by simp
  next
    case False
    with Cons show ?thesis by (auto simp: Let_def split: if_splits)
  qed
qed

lemma split2_cut: "split2 s sep = Inr (cut s sep)"
proof (cases s)
  case Nil
  then show ?thesis
    by (simp add: split2_def SplitN_def cut_def at_def)
next
  case (Cons c t)
  then have "SplitN s sep 2 = genSplit s sep (Suc 0)"
    by (simp add: SplitN_def)
  then show ?thesis
    by (simp add: split2_def cut_def at_def Let_def)
qed

lemma parsePrefix_eq: "parsePrefix l = Inr (prefix_part l)"
proof (cases l)
  case Nil
  then show ?thesis by (simp add: parsePrefix_def prefix_part_def)
next
  case (Cons c l1)
  show ?thesis
  proof (cases "c = CHR '':''")
    case False
    with Cons show ?thesis by (simp add: parsePrefix_def prefix_part_def at_def)
  next
    case True
    obtain h t where ht: "cut l1 '' '' = (h, t)" by (cases "cut l1 '' ''")
    have u: "- 1 \<le> Index h ''!''" "- 1 \<le> Index h ''@''" by (rule Index_ge)+
    have ub: "Index h ''!'' < int (length h)"
      using Index_le[of h "''!''"] by (cases "0 \<le> Index h ''!''") simp_all
    have hb: "Index h ''@'' < int (length h)"
      using Index_le[of h "''@''"] by (cases "0 \<le> Index h ''@''") simp_all
    from Cons True ht u ub hb show ?thesis
      by (auto simp: parsePrefix_def prefix_part_def at_def slice_from_def slice_to_def
          split2_cut prefix_of_def Let_def nat_add_distrib)
  qed
qed

lemma parseParams_eq: "parseParams l = Inr (Some (fst (params_part l)), snd (params_part l))"
  by (cases l) (auto simp: parseParams_def params_part_def at_def split2_cut split: prod.splits)

lemma text_eq:
  "(if l \<noteq> [] then pbind (at l 0) (\<lambda>c. if c = CHR '':'' then slice_from l 1 else Inr l)
    else Inr l) = Inr (text_part l)"
  by (cases l) (auto simp: at_def slice_from_def text_part_def)

lemma ParseMessage_parse: "ParseMessage l = Inr (parse l)"
  unfolding ParseMessage_def parse_def
  by (simp add: parsePrefix_eq parseCommand_def split2_cut parseParams_eq text_eq
      split: prod.splits)

text \<open>
  The \<open>ParseMessage\<close> of \<open>src/irc/irc.go\<close> returns for every input string \<open>l\<close> (no index or
  slice expression panics, the empty string included), and the \<open>Params\<close> of the message
  returned is a slice that is not nil.
\<close>

theorem ParseMessage_total: "\<exists>m ps. ParseMessage l = Inr m \<and> Params m = Some ps"
  by (simp add: ParseMessage_parse parse_def split: prod.splits)

text \<open>
  C6: for every input string \<open>l\<close>, the \<open>Raw\<close> field of the message \<open>ParseMessage(l)\<close> returns
  is \<open>l\<close> itself.
\<close>

theorem ParseMessage_Raw: "\<exists>m. ParseMessage l = Inr m \<and> Raw m = l"
  by (simp add: ParseMessage_parse parse_def split: prod.splits)

text \<open>
  C3: \<open>ParseMessage(":nick!user@host PRIVMSG #chan :hello world")\<close> has prefix name
  \<open>nick\<close>, prefix user \<open>user\<close>, prefix host \<open>host\<close>, command \<open>PRIVMSG\<close>, the one parameter
  \<open>#chan\<close> and text \<open>hello world\<close>.
\<close>

theorem ParseMessage_privmsg:
  "ParseMessage '':nick!user@host PRIVMSG #chan :hello world'' =
     Inr \<lparr>Command = ''PRIVMSG'', Params = Some [''#chan''],
          Prefix = Some \<lparr>Name = ''nick'', User = ''user'', Host = ''host''\<rparr>,
          Raw = '':nick!user@host PRIVMSG #chan :hello world'',
          Txt = ''hello world''\<rparr>"
  by code_simp

section \<open>Splitting at a single character\<close>

lemma Index_absent: "c \<notin> set s \<Longrightarrow> Index s [c] = - 1"
  by (induction s) (auto simp: Let_def)

lemma Index_first: "c \<notin> set a \<Longrightarrow> Index (a @ c # b) [c] = int (length a)"
  by (induction a) (auto simp: Let_def)

lemma cut_absent: "c \<notin> set s \<Longrightarrow> cut s [c] = (s, [])"
  by (simp add: cut_def Index_absent)

lemma cut_first: "c \<notin> set a \<Longrightarrow> cut (a @ c # b) [c] = (a, b)"
  by (simp add: cut_def Index_first)

lemma prefix_part_plain:
  "l = [] \<or> hd l \<noteq> CHR '':'' \<Longrightarrow> prefix_part l = (\<lparr>Name = [], User = [], Host = []\<rparr>, l)"
  by (cases l) (auto simp: prefix_part_def)

lemma params_text_colon: "params_part '':'' = ([], '':'')" "text_part '':'' = []"
  by (simp_all add: params_part_def text_part_def)

text \<open>
  In \<open>src/irc/irc.go\<close>, for every line whose params section is absent and whose text
  section is a single colon and nothing else, that is, every line of which a lone colon
  is left once the prefix and the command are taken, the text of the message is the empty
  string and its parameters are the empty slice.
\<close>

theorem ParseMessage_lone_colon:
  assumes "parsePrefix l = Inr (p, l1)" and "parseCommand l1 = Inr (cmd, '':'')"
  shows "ParseMessage l
    = Inr \<lparr>Command = cmd, Params = Some [], Prefix = Some p, Raw = l, Txt = []\<rparr>"
  using assms
  by (simp add: ParseMessage_def parseParams_eq params_text_colon text_eq)

lemma parsePrefix_ping: "parsePrefix ''PING :'' = Inr (\<lparr>Name = [], User = [], Host = []\<rparr>, ''PING :'')"
  by code_simp

lemma parseCommand_ping: "parseCommand ''PING :'' = Inr (''PING'', '':'')"
  by code_simp

theorem ParseMessage_lone_colon_witness:
  "ParseMessage ''PING :''
    = Inr \<lparr>Command = ''PING'', Params = Some [],
           Prefix = Some \<lparr>Name = [], User = [], Host = []\<rparr>, Raw = ''PING :'', Txt = []\<rparr>"
  using ParseMessage_lone_colon [OF parsePrefix_ping parseCommand_ping] .

text \<open>
  The lines of that kind: a command followed by \<open>" :"\<close>, with or without a prefix before
  the command (without a prefix the command does not begin with a colon, which would make
  it a prefix).
\<close>

lemma ParseMessage_lone_colon_lines:
  assumes "CHR '' '' \<notin> set cmd" and "CHR '' '' \<notin> set pfx"
  shows "((cmd = [] \<or> hd cmd \<noteq> CHR '':'') \<longrightarrow>
           (\<exists>m. ParseMessage (cmd @ '' :'') = Inr m \<and> Command m = cmd \<and>
                Params m = Some [] \<and> Txt m = []))
       \<and> (\<exists>m. ParseMessage ('':'' @ pfx @ '' '' @ cmd @ '' :'') = Inr m \<and> Command m = cmd \<and>
                Params m = Some [] \<and> Txt m = [])"
proof (intro conjI impI)
  assume "cmd = [] \<or> hd cmd \<noteq> CHR '':''"
  then have "prefix_part (cmd @ '' :'') = (\<lparr>Name = [], User = [], Host = []\<rparr>, cmd @ '' :'')"
    by (intro prefix_part_plain) (cases cmd, auto)
  moreover have "cut (cmd @ '' :'') '' '' = (cmd, '':'')"
    using cut_first[OF assms(1), of "'':''"] by simp
  ultimately show "\<exists>m. ParseMessage (cmd @ '' :'') = Inr m \<and> Command m = cmd \<and>
                Params m = Some [] \<and> Txt m = []"
    by (simp add: ParseMessage_parse parse_def params_text_colon)
next
  have "cut (pfx @ '' '' @ cmd @ '' :'') '' '' = (pfx, cmd @ '' :'')"
    using cut_first[OF assms(2), of "cmd @ '' :''"] by simp
  then have "prefix_part ('':'' @ pfx @ '' '' @ cmd @ '' :'') = (prefix_of pfx, cmd @ '' :'')"
    by (simp add: prefix_part_def)
  moreover have "cut (cmd @ '' :'') '' '' = (cmd, '':'')"
    using cut_first[OF assms(1), of "'':''"] by simp
  ultimately show "\<exists>m. ParseMessage ('':'' @ pfx @ '' '' @ cmd @ '' :'') = Inr m \<and>
      Command m = cmd \<and> Params m = Some [] \<and> Txt m = []"
    by (simp add: ParseMessage_parse parse_def params_text_colon)
qed

section \<open>A prefix body with an exclamation mark and no at sign\<close>

lemma prefix_of_bang:
  assumes "n \<noteq> []" "CHR ''!'' \<notin> set n" "CHR ''@'' \<notin> set n" "CHR ''@'' \<notin> set u"
  shows "prefix_of (n @ ''!'' @ u) = \<lparr>Name = n, User = u, Host = []\<rparr>"
proof -
  have "Index (n @ ''!'' @ u) ''!'' = int (length n)"
    using Index_first[OF assms(2), of u] by simp
  moreover have "Index (n @ ''!'' @ u) ''@'' = - 1"
    using assms by (intro Index_absent) simp
  ultimately show ?thesis using assms(1) by (simp add: prefix_of_def)
qed

text \<open>
  C4, as the code has it: for every line that begins with a colon and whose prefix body
  (up to the first space, or the end of the line) is \<open>n!u\<close>, where \<open>n\<close> is not empty and
  has no \<open>!\<close>, and neither \<open>n\<close> nor \<open>u\<close> has an \<open>@\<close>, the prefix has name \<open>n\<close>, user \<open>u\<close>
  (everything after the first \<open>!\<close>) and an empty host.
\<close>

theorem ParseMessage_user_without_host:
  assumes "n \<noteq> []" and "CHR ''!'' \<notin> set n"
    and "CHR ''@'' \<notin> set n" and "CHR ''@'' \<notin> set u"
    and "CHR '' '' \<notin> set n" and "CHR '' '' \<notin> set u"
    and "rest = [] \<or> hd rest = CHR '' ''"
  shows "\<exists>m. ParseMessage ('':'' @ n @ ''!'' @ u @ rest) = Inr m \<and>
           Prefix m = Some \<lparr>Name = n, User = u, Host = []\<rparr>"
proof -
  have sp: "CHR '' '' \<notin> set (n @ ''!'' @ u)" using assms by simp
  have "fst (cut (n @ ''!'' @ u @ rest) '' '') = n @ ''!'' @ u"
  proof (cases rest)
    case Nil
    then show ?thesis using cut_absent[OF sp] by simp
  next
    case (Cons c t)
    with assms(7) have "c = CHR '' ''" by simp
    with Cons show ?thesis using cut_first[OF sp, of t] by simp
  qed
  then have "fst (prefix_part ('':'' @ n @ ''!'' @ u @ rest))
      = \<lparr>Name = n, User = u, Host = []\<rparr>"
    using prefix_of_bang[OF assms(1-4)] by (simp add: prefix_part_def)
  then show ?thesis
    by (simp add: ParseMessage_parse parse_def case_prod_beta)
qed

theorem ParseMessage_user_without_host_witness:
  "\<exists>m. ParseMessage '':nick!user PING'' = Inr m \<and>
       Prefix m = Some \<lparr>Name = ''nick'', User = ''user'', Host = []\<rparr>"
  using ParseMessage_user_without_host [of "''nick''" "''user''" "'' PING''"] by simp

text \<open>
  When \<open>!\<close> is the first character of the prefix body, the test \<open>user > 0\<close> fails: the
  whole body is the name and the user stays empty.
\<close>

theorem ParseMessage_leading_bang:
  "ParseMessage '':!user PING'' =
     Inr \<lparr>Command = ''PING'', Params = Some [],
          Prefix = Some \<lparr>Name = ''!user'', User = [], Host = []\<rparr>,
          Raw = '':!user PING'', Txt = []\<rparr>"
  by code_simp

section \<open>The round trip through the serialization format\<close>

lemma Index_prefix: "0 \<le> Index s sep \<Longrightarrow> prefix sep (drop (nat (Index s sep)) s)"
proof (induction s)
  case Nil
  then show ?case by (simp split: if_splits)
next
  case (Cons c s)
  show ?case
  proof (cases "prefix sep (c # s)")
    case True
    then show ?thesis by simp
  next
    case False
    with Cons show ?thesis by (auto simp: Let_def nat_add_distrib split: if_splits)
  qed
qed

lemma Index_split: 
  assumes "0 \<le> Index s sep"
  shows "take (nat (Index s sep)) s @ sep @ drop (nat (Index s sep) + length sep) s = s"
proof -
  from Index_prefix[OF assms] obtain r where r: "drop (nat (Index s sep)) s = sep @ r"
    by (auto simp: prefix_def)
  then have "drop (length sep) (drop (nat (Index s sep)) s) = r" by simp
  then have "drop (nat (Index s sep) + length sep) s = r" by (simp add: add.commute)
  with r show ?thesis
    by (metis append_take_drop_id)
qed

lemma genSplit_nonempty: "genSplit s sep k \<noteq> []"
  by (cases k) (auto simp: Let_def)

lemma Join_Cons: "xs \<noteq> [] \<Longrightarrow> Join (x # xs) sep = x @ sep @ Join xs sep"
  by (cases xs) auto

lemma Join_genSplit: "Join (genSplit s sep k) sep = s"
proof (induction k arbitrary: s)
  case 0
  then show ?case by simp
next
  case (Suc k)
  show ?case
  proof (cases "Index s sep < 0")
    case True
    then show ?thesis by simp
  next
    case False
    then have "0 \<le> Index s sep" by simp
    from Index_split[OF this] Suc False show ?thesis
      by (simp add: Let_def Join_Cons genSplit_nonempty)
  qed
qed

lemma Join_Split: "Join (Split s sep) sep = s"
  by (simp add: Split_def SplitN_def Join_genSplit)

lemma Split_nonempty: "Split s sep \<noteq> []"
  by (simp add: Split_def SplitN_def genSplit_nonempty)

lemma Split_Nil: "sep \<noteq> [] \<Longrightarrow> Split [] sep = [[]]"
  by (simp add: Split_def SplitN_def)

lemma Index_take: "sep \<noteq> [] \<Longrightarrow> 0 \<le> Index s sep \<Longrightarrow> Index (take (nat (Index s sep)) s) sep = - 1"
proof (induction s)
  case Nil
  then show ?case by simp
next
  case (Cons c s)
  show ?case
  proof (cases "prefix sep (c # s)")
    case True
    with Cons.prems show ?thesis by simp
  next
    case False
    with Cons.prems have i: "0 \<le> Index s sep" and e: "Index (c # s) sep = Index s sep + 1"
      by (auto simp: Let_def split: if_splits)
    have t: "take (nat (Index (c # s) sep)) (c # s) = c # take (nat (Index s sep)) s"
      using i e by (simp add: nat_add_distrib)
    have "\<not> prefix sep (c # take (nat (Index s sep)) s)"
    proof
      assume "prefix sep (c # take (nat (Index s sep)) s)"
      moreover have "prefix (c # take (nat (Index s sep)) s) (c # s)"
        by (simp add: take_is_prefix)
      ultimately have "prefix sep (c # s)" by (rule prefix_order.trans)
      with False show False by simp
    qed
    with Cons.IH[OF Cons.prems(1) i] t show ?thesis by simp
  qed
qed

lemma Index_fst_cut: "sep \<noteq> [] \<Longrightarrow> Index (fst (cut s sep)) sep = - 1"
  using Index_take[of sep s] Index_ge[of s sep]
  by (cases "Index s sep < 0") (auto simp: cut_def Let_def)

lemma Index_two_first:
  assumes "a \<noteq> b" and "Index h [a, b] = - 1"
  shows "Index (h @ a # b # t) [a, b] = int (length h)"
  using assms(2)
proof (induction h)
  case Nil
  then show ?case by simp
next
  case (Cons c h)
  from Cons.prems have np: "\<not> prefix [a, b] (c # h)" and ih: "Index h [a, b] = - 1"
    using Index_ge[of h "[a, b]"] by (auto simp: Let_def split: if_splits)
  have "\<not> prefix [a, b] (c # h @ a # b # t)"
    using np assms(1) by (cases h) auto
  with Cons.IH[OF ih] show ?case by simp
qed

lemma cut_two_first:
  "a \<noteq> b \<Longrightarrow> Index h [a, b] = - 1 \<Longrightarrow> cut (h @ a # b # t) [a, b] = (h, t)"
  by (simp add: cut_def Index_two_first)

lemma fst_cut_char: "c \<notin> set (fst (cut s [c]))"
proof -
  have "Index (fst (cut s [c])) [c] = - 1" by (rule Index_fst_cut) simp
  then show ?thesis
  proof (rule contrapos_pp)
    assume "\<not> c \<notin> set (fst (cut s [c]))"
    then obtain x y where "fst (cut s [c]) = x @ c # y" "c \<notin> set x"
      by (auto dest: split_list_first)
    then show "Index (fst (cut s [c])) [c] \<noteq> - 1" by (simp add: Index_first)
  qed
qed

lemma fst_cut_prefix: "prefix (fst (cut s sep)) s"
  by (simp add: cut_def Let_def take_is_prefix)

lemma prefix_of_full:
  assumes "n \<noteq> []" "CHR ''!'' \<notin> set n" "CHR ''@'' \<notin> set n" "CHR ''@'' \<notin> set r"
  shows "prefix_of (n @ CHR ''!'' # r @ CHR ''@'' # y) = \<lparr>Name = n, User = r, Host = y\<rparr>"
proof -
  have a: "Index (n @ CHR ''!'' # r @ CHR ''@'' # y) ''!'' = int (length n)"
    using Index_first[OF assms(2)] by simp
  have "Index ((n @ CHR ''!'' # r) @ CHR ''@'' # y) ''@'' = int (length (n @ CHR ''!'' # r))"
    using assms by (intro Index_first) simp
  then have b: "Index (n @ CHR ''!'' # r @ CHR ''@'' # y) ''@'' = int (length (n @ CHR ''!'' # r))"
    by simp
  show ?thesis unfolding prefix_of_def a b Let_def nat_int using assms(1) by simp
qed

lemma prefix_of_bang_host:
  assumes "CHR ''@'' \<notin> set r"
  shows "prefix_of (CHR ''!'' # r @ CHR ''@'' # y) = \<lparr>Name = CHR ''!'' # r, User = [], Host = y\<rparr>"
proof -
  have a: "Index (CHR ''!'' # r @ CHR ''@'' # y) ''!'' = 0" by simp
  have "Index ((CHR ''!'' # r) @ CHR ''@'' # y) ''@'' = int (length (CHR ''!'' # r))"
    using assms by (intro Index_first) simp
  then have b: "Index (CHR ''!'' # r @ CHR ''@'' # y) ''@'' = int (length (CHR ''!'' # r))"
    by simp
  show ?thesis unfolding prefix_of_def a b Let_def nat_int by simp
qed

lemma prefix_of_host:
  assumes "CHR ''@'' \<notin> set x" "CHR ''!'' \<notin> set x" "CHR ''!'' \<notin> set y"
  shows "prefix_of (x @ CHR ''@'' # y) = \<lparr>Name = x, User = [], Host = y\<rparr>"
proof -
  have "Index (x @ CHR ''@'' # y) ''!'' = - 1"
    using assms by (intro Index_absent) simp
  moreover have "Index (x @ CHR ''@'' # y) ''@'' = int (length x)"
    using assms by (intro Index_first) simp
  ultimately show ?thesis by (simp add: prefix_of_def)
qed

lemma prefix_of_at_name:
  assumes "CHR ''@'' \<notin> set x" "CHR ''!'' \<notin> set x" "CHR ''!'' \<notin> set y1"
  shows "prefix_of (x @ CHR ''@'' # y1 @ CHR ''!'' # y2)
    = \<lparr>Name = x @ CHR ''@'' # y1, User = y2, Host = []\<rparr>"
proof -
  have "Index ((x @ CHR ''@'' # y1) @ CHR ''!'' # y2) ''!'' = int (length (x @ CHR ''@'' # y1))"
    using assms by (intro Index_first) simp
  then have a: "Index (x @ CHR ''@'' # y1 @ CHR ''!'' # y2) ''!''
      = int (length (x @ CHR ''@'' # y1))"
    by simp
  have b: "Index (x @ CHR ''@'' # y1 @ CHR ''!'' # y2) ''@'' = int (length x)"
    using assms by (intro Index_first) simp
  have "take (length (x @ CHR ''@'' # y1)) ((x @ CHR ''@'' # y1) @ CHR ''!'' # y2)
      = x @ CHR ''@'' # y1"
    by simp
  moreover have "drop (Suc (length (x @ CHR ''@'' # y1))) ((x @ CHR ''@'' # y1) @ CHR ''!'' # y2)
      = y2"
    by simp
  ultimately show ?thesis unfolding prefix_of_def a b Let_def nat_int by simp
qed

lemma prefix_of_bang_only:
  assumes "CHR ''@'' \<notin> set r"
  shows "prefix_of (CHR ''!'' # r) = \<lparr>Name = CHR ''!'' # r, User = [], Host = []\<rparr>"
proof -
  have "Index (CHR ''!'' # r) ''!'' = 0" by simp
  moreover have "Index (CHR ''!'' # r) ''@'' = - 1"
    using assms by (intro Index_absent) simp
  ultimately show ?thesis by (simp add: prefix_of_def)
qed

lemma prefix_of_name:
  assumes "CHR ''@'' \<notin> set h" "CHR ''!'' \<notin> set h"
  shows "prefix_of h = \<lparr>Name = h, User = [], Host = []\<rparr>"
  using assms by (simp add: prefix_of_def Index_absent)

lemma prefix_of_bang': 
  assumes "n \<noteq> []" "CHR ''!'' \<notin> set n" "CHR ''@'' \<notin> set n" "CHR ''@'' \<notin> set u"
  shows "prefix_of (n @ CHR ''!'' # u) = \<lparr>Name = n, User = u, Host = []\<rparr>"
  using prefix_of_bang[OF assms] by simp


lemma prefix_roundtrip:
  assumes "User (prefix_of h) \<noteq> []
    \<or> (CHR ''@'' \<notin> set (Name (prefix_of h))
       \<and> (CHR ''!'' \<notin> set (Host (prefix_of h)) \<or> CHR ''!'' \<in> set (Name (prefix_of h))))"
  shows "prefix_of (prefix_text (prefix_of h)) = prefix_of h"
proof (cases "CHR ''@'' \<in> set h")
  case True
  then obtain x y where h: "h = x @ CHR ''@'' # y" and x: "CHR ''@'' \<notin> set x"
    by (auto dest: split_list_first)
  show ?thesis
  proof (cases "CHR ''!'' \<in> set x")
    case True
    then obtain n r where xx: "x = n @ CHR ''!'' # r" and n: "CHR ''!'' \<notin> set n"
      by (auto dest: split_list_first)
    show ?thesis
    proof (cases "n = []")
      case True
      with xx x h have p: "prefix_of h = \<lparr>Name = CHR ''!'' # r, User = [], Host = y\<rparr>"
        using prefix_of_bang_host[of r y] by simp
      with xx x show ?thesis
        using prefix_of_bang_host[of r y] prefix_of_bang_only[of r]
        by (simp add: prefix_text_def)
    next
      case False
      with xx x h n have p: "prefix_of h = \<lparr>Name = n, User = r, Host = y\<rparr>"
        using prefix_of_full[of n r y] by simp
      from assms p n have "r \<noteq> [] \<or> CHR ''!'' \<notin> set y" by auto
      with p False xx x n show ?thesis
        using prefix_of_full[of n r y] prefix_of_bang'[of n r] prefix_of_host[of n y]
          prefix_of_name[of n]
        by (auto simp: prefix_text_def)
    qed
  next
    case nx: False
    show ?thesis
    proof (cases "CHR ''!'' \<in> set y")
      case True
      then obtain y1 y2 where y: "y = y1 @ CHR ''!'' # y2" and y1: "CHR ''!'' \<notin> set y1"
        by (auto dest: split_list_first)
      with h x nx have p: "prefix_of h = \<lparr>Name = x @ CHR ''@'' # y1, User = y2, Host = []\<rparr>"
        using prefix_of_at_name[of x y1 y2] by simp
      from assms p have "y2 \<noteq> []" by simp
      with p h y show ?thesis by (simp add: prefix_text_def)
    next
      case False
      with h x nx have p: "prefix_of h = \<lparr>Name = x, User = [], Host = y\<rparr>"
        using prefix_of_host[of x y] by simp
      with x nx False show ?thesis
        using prefix_of_host[of x y] prefix_of_name[of x]
        by (simp add: prefix_text_def)
    qed
  qed
next
  case na: False
  show ?thesis
  proof (cases "CHR ''!'' \<in> set h")
    case True
    then obtain n r where h: "h = n @ CHR ''!'' # r" and n: "CHR ''!'' \<notin> set n"
      by (auto dest: split_list_first)
    show ?thesis
    proof (cases "n = []")
      case True
      with h na have "prefix_of h = \<lparr>Name = h, User = [], Host = []\<rparr>"
        using prefix_of_bang_only[of r] by simp
      then show ?thesis by (simp add: prefix_text_def)
    next
      case False
      with h n na have p: "prefix_of h = \<lparr>Name = n, User = r, Host = []\<rparr>"
        using prefix_of_bang'[of n r] by simp
      with h n na show ?thesis
        using prefix_of_name[of n] by (simp add: prefix_text_def)
    qed
  next
    case False
    with na have "prefix_of h = \<lparr>Name = h, User = [], Host = []\<rparr>"
      by (rule prefix_of_name)
    then show ?thesis by (simp add: prefix_text_def)
  qed
qed

lemma text_part_id: "trl = [] \<or> hd trl \<noteq> CHR '':'' \<Longrightarrow> text_part trl = trl"
  by (auto simp: text_part_def)

lemma params_roundtrip:
  assumes pp: "params_part l2 = (ps, l3)" and t: "trl = text_part l3"
    and c: "ps = [] \<or> trl = [] \<or> hd trl \<noteq> CHR '':''"
    and e: "ps \<noteq> [[]] \<or> trl \<noteq> []"
  shows "\<exists>l2' l3'. (params_text ps trl = [] \<and> l2' = [] \<or> params_text ps trl = CHR '' '' # l2')
           \<and> params_part l2' = (ps, l3') \<and> text_part l3' = trl"
proof (cases "l2 = [] \<or> hd l2 = CHR '':''")
  case True
  with pp have ps: "ps = []" and l3: "l3 = l2" by (auto simp: params_part_def)
  show ?thesis
  proof (cases "trl = []")
    case True
    with ps show ?thesis by (simp add: params_text_def params_part_def text_part_def)
  next
    case False
    with ps have "params_text ps trl = CHR '' '' # CHR '':'' # trl" by (simp add: params_text_def)
    moreover have "params_part (CHR '':'' # trl) = ([], CHR '':'' # trl)"
      by (simp add: params_part_def)
    moreover have "text_part (CHR '':'' # trl) = trl" by (simp add: text_part_def)
    ultimately show ?thesis using ps by simp
  qed
next
  case False
  define h where "h = fst (cut l2 '' :'')"
  from False pp have ps: "ps = Split h '' ''" and l3: "l3 = snd (cut l2 '' :'')"
    by (auto simp: params_part_def h_def)
  have J: "Join ps '' '' = h" and ne: "ps \<noteq> []"
    by (simp_all add: ps Join_Split Split_nonempty)
  have noh: "Index h '' :'' = - 1" unfolding h_def by (rule Index_fst_cut) simp
  have hh: "h = [] \<or> hd h \<noteq> CHR '':''"
  proof (cases h)
    case Nil
    then show ?thesis by simp
  next
    case (Cons a h')
    have "prefix h l2" unfolding h_def by (rule fst_cut_prefix)
    with Cons False show ?thesis by (auto simp: prefix_def)
  qed
  from c ne have kt: "text_part trl = trl" by (intro text_part_id) simp
  show ?thesis
  proof (cases "trl = []")
    case True
    with e have "ps \<noteq> [[]]" by simp
    with ps have hne: "h \<noteq> []" using Split_Nil[of "'' ''"] by auto
    from True ne J have "params_text ps trl = CHR '' '' # h" by (simp add: params_text_def)
    moreover have "params_part h = (ps, [])"
      using hne hh noh by (simp add: params_part_def cut_def ps)
    ultimately show ?thesis using True by (simp add: text_part_def)
  next
    case False
    with ne J have "params_text ps trl = CHR '' '' # (h @ CHR '' '' # CHR '':'' # trl)"
      by (simp add: params_text_def)
    moreover have "cut (h @ CHR '' '' # CHR '':'' # trl) '' :'' = (h, trl)"
      using cut_two_first[of "CHR '' ''" "CHR '':''" h trl] noh by simp
    then have "params_part (h @ CHR '' '' # CHR '':'' # trl) = (ps, trl)"
      using hh by (cases h) (auto simp: params_part_def ps)
    ultimately show ?thesis using kt by auto
  qed
qed

lemma prefix_of_Nil: "prefix_of [] = \<lparr>Name = [], User = [], Host = []\<rparr>"
  by (simp add: prefix_of_def)

lemma prefix_part_body:
  "\<exists>h. CHR '' '' \<notin> set h \<and> fst (prefix_part l) = prefix_of h"
proof (cases "l \<noteq> [] \<and> hd l = CHR '':''")
  case True
  then obtain l1 where "l = CHR '':'' # l1" by (cases l) auto
  then have "fst (prefix_part l) = prefix_of (fst (cut l1 '' ''))"
    by (simp add: prefix_part_def)
  then show ?thesis using fst_cut_char[of "CHR '' ''" l1] by blast
next
  case False
  then have "fst (prefix_part l) = prefix_of []"
    by (cases l) (auto simp: prefix_part_def prefix_of_Nil)
  then show ?thesis by (intro exI[of _ "[]"]) simp
qed

lemma prefix_of_subset:
  "set (Name (prefix_of h)) \<subseteq> set h" "set (User (prefix_of h)) \<subseteq> set h"
  "set (Host (prefix_of h)) \<subseteq> set h"
  by (auto simp: prefix_of_def Let_def dest: in_set_takeD in_set_dropD)

lemma prefix_text_no_space:
  assumes "CHR '' '' \<notin> set h"
  shows "CHR '' '' \<notin> set (prefix_text (prefix_of h))"
  using assms prefix_of_subset[of h] by (auto simp: prefix_text_def)

lemma serialize_parse:
  "serialize \<lparr>Command = cmd, Params = Some ps, Prefix = Some p, Raw = l, Txt = trl\<rparr>
    = (if p = \<lparr>Name = [], User = [], Host = []\<rparr> then [] else '':'' @ prefix_text p @ '' '')
      @ cmd @ params_text ps trl"
  by (cases p) (simp add: serialize_def params_text_def)

lemma params_text_head: "params_text ps trl = [] \<or> hd (params_text ps trl) = CHR '' ''"
  by (simp add: params_text_def)

lemma parse_roundtrip:
  assumes m: "parse l = \<lparr>Command = cmd, Params = Some ps, Prefix = Some p, Raw = l, Txt = trl\<rparr>"
    and user: "User p \<noteq> []
      \<or> (CHR ''@'' \<notin> set (Name p) \<and> (CHR ''!'' \<notin> set (Host p) \<or> CHR ''!'' \<in> set (Name p)))"
    and c: "p \<noteq> \<lparr>Name = [], User = [], Host = []\<rparr> \<or> cmd = [] \<or> hd cmd \<noteq> CHR '':''"
    and t: "ps = [] \<or> trl = [] \<or> hd trl \<noteq> CHR '':''"
    and e: "ps \<noteq> [[]] \<or> trl \<noteq> []"
  shows "parse (serialize (parse l))
    = \<lparr>Command = cmd, Params = Some ps, Prefix = Some p, Raw = serialize (parse l), Txt = trl\<rparr>"
proof -
  obtain l1 where l1: "prefix_part l = (p, l1)"
    using m by (auto simp: parse_def split: prod.splits)
  obtain l2 where l2: "cut l1 '' '' = (cmd, l2)"
    using m l1 by (auto simp: parse_def split: prod.splits)
  obtain l3 where l3: "params_part l2 = (ps, l3)" and tr: "trl = text_part l3"
    using m l1 l2 by (auto simp: parse_def split: prod.splits)
  from params_roundtrip[OF l3 tr t e] obtain l2' l3' where
    qt: "params_text ps trl = [] \<and> l2' = [] \<or> params_text ps trl = CHR '' '' # l2'"
    and pp: "params_part l2' = (ps, l3')" and tp: "text_part l3' = trl"
    by blast
  have cs: "CHR '' '' \<notin> set cmd" using fst_cut_char[of "CHR '' ''" l1] l2 by simp
  define rest where "rest = cmd @ params_text ps trl"
  have r2: "cut rest '' '' = (cmd, l2')"
    using qt cs unfolding rest_def by (auto simp: cut_absent cut_first)
  from prefix_part_body[of l] l1 obtain h where hs: "CHR '' '' \<notin> set h" and ph: "p = prefix_of h"
    by auto
  define s where "s = serialize (parse l)"
  have s: "s = (if p = \<lparr>Name = [], User = [], Host = []\<rparr> then []
                else '':'' @ prefix_text p @ '' '') @ rest"
    unfolding s_def m serialize_parse rest_def by simp
  have r1: "prefix_part s = (p, rest)"
  proof (cases "p = \<lparr>Name = [], User = [], Host = []\<rparr>")
    case True
    with c have "cmd = [] \<or> hd cmd \<noteq> CHR '':''" by simp
    then have "rest = [] \<or> hd rest \<noteq> CHR '':''"
      unfolding rest_def using params_text_head[of ps trl] by (cases cmd) auto
    with True s show ?thesis by (simp add: prefix_part_plain)
  next
    case False
    have "cut (prefix_text p @ CHR '' '' # rest) '' '' = (prefix_text p, rest)"
      using prefix_text_no_space[OF hs] ph by (intro cut_first) simp
    moreover have "prefix_of (prefix_text p) = p"
      using prefix_roundtrip[of h] user ph by simp
    ultimately show ?thesis using False s by (simp add: prefix_part_def)
  qed
  show ?thesis
    unfolding s_def[symmetric] using r1 r2 pp tp by (simp add: parse_def)
qed

lemma parsePrefix_notice:
  "parsePrefix '':irc.example.com NOTICE * :*** Checking Ident''
    = Inr (\<lparr>Name = ''irc.example.com'', User = [], Host = []\<rparr>,
           ''NOTICE * :*** Checking Ident'')"
  by code_simp

lemma parseCommand_notice:
  "parseCommand ''NOTICE * :*** Checking Ident'' = Inr (''NOTICE'', ''* :*** Checking Ident'')"
  by code_simp

lemma parseParams_notice:
  "parseParams ''* :*** Checking Ident'' = Inr (Some [''*''], ''*** Checking Ident'')"
  by code_simp

text \<open>
  C2, as the code has it.  Let \<open>p\<close>, \<open>cmd\<close> and \<open>ps\<close> be the prefix, the command and the
  parameters \<open>ParseMessage(l)\<close> extracts, and \<open>l3\<close> what is left of the line after the
  parameters.  If (1) the user of \<open>p\<close> is not empty, or the name of \<open>p\<close> has no \<open>@\<close> and
  either the host of \<open>p\<close> has no \<open>!\<close> or the name has one; (2) \<open>p\<close> is not the empty prefix,
  or the command does not begin with a colon; (3) \<open>ps\<close> is not the single empty string, or
  \<open>l3\<close> is not empty; then parsing the serialization of the message returns a message with
  the same command, parameters, prefix and text.  The last hypothesis leaves out the lines
  with parameters whose trailing section \<open>l3\<close>, what follows the first \<open>" :"\<close>, itself begins
  with a colon: there \<open>ParseMessage\<close> strips a second colon, which the grammar of its doc
  comment does not allow (\<open>trailing\<close> may begin with a colon), and nothing is stated about
  them.
\<close>

theorem ParseMessage_roundtrip:
  assumes "parsePrefix l = Inr (p, l1)" and "parseCommand l1 = Inr (cmd, l2)"
    and "parseParams l2 = Inr (Some ps, l3)"
    and "User p \<noteq> []
      \<or> (CHR ''@'' \<notin> set (Name p) \<and> (CHR ''!'' \<notin> set (Host p) \<or> CHR ''!'' \<in> set (Name p)))"
    and "p \<noteq> \<lparr>Name = [], User = [], Host = []\<rparr> \<or> cmd = [] \<or> hd cmd \<noteq> CHR '':''"
    and "ps \<noteq> [[]] \<or> l3 \<noteq> []"
    and "ps = [] \<or> l3 = [] \<or> hd l3 \<noteq> CHR '':''"
  shows "\<exists>m m'. ParseMessage l = Inr m \<and> Command m = cmd \<and> Params m = Some ps \<and>
           Prefix m = Some p \<and> ParseMessage (serialize m) = Inr m' \<and>
           Command m' = Command m \<and> Params m' = Params m \<and> Prefix m' = Prefix m \<and>
           Txt m' = Txt m"
proof -
  from assms(1) have a: "prefix_part l = (p, l1)" by (simp add: parsePrefix_eq)
  from assms(2) have b: "cut l1 '' '' = (cmd, l2)" by (simp add: parseCommand_def split2_cut)
  from assms(3) have c: "params_part l2 = (ps, l3)"
    by (cases "params_part l2") (simp add: parseParams_eq)
  from a b c have m: "parse l
      = \<lparr>Command = cmd, Params = Some ps, Prefix = Some p, Raw = l, Txt = text_part l3\<rparr>"
    by (simp add: parse_def)
  have t: "ps = [] \<or> text_part l3 = [] \<or> hd (text_part l3) \<noteq> CHR '':''"
    using assms(7) by (auto simp: text_part_def)
  have e: "ps \<noteq> [[]] \<or> text_part l3 \<noteq> []"
    using assms(6,7) by (auto simp: text_part_def)
  from parse_roundtrip[OF m assms(4,5) t e] m show ?thesis
    by (simp add: ParseMessage_parse)
qed

theorem ParseMessage_roundtrip_witness:
  "\<exists>m m'. ParseMessage '':irc.example.com NOTICE * :*** Checking Ident'' = Inr m \<and>
      Command m = ''NOTICE'' \<and> Params m = Some [''*''] \<and>
      Prefix m = Some \<lparr>Name = ''irc.example.com'', User = [], Host = []\<rparr> \<and>
      ParseMessage (serialize m) = Inr m' \<and>
      Command m' = Command m \<and> Params m' = Params m \<and> Prefix m' = Prefix m \<and>
      Txt m' = Txt m"
  using ParseMessage_roundtrip [OF parsePrefix_notice parseCommand_notice parseParams_notice]
  by simp

text \<open>
  Four lines whose message does not survive, one for each way the format loses what the
  parser kept: an empty user after a name with \<open>@\<close>; an empty user before a host with \<open>!\<close>;
  a command that begins with a colon after an empty prefix; the single empty parameter
  with no text.  Each line is followed by its serialization and by the fields parsed
  from the serialization.
\<close>

theorem ParseMessage_roundtrip_fails:
  "map_sum id fields (ParseMessage '':a@b! X'')
     = Inr (''X'', Some [], Some \<lparr>Name = ''a@b'', User = [], Host = []\<rparr>, [])
   \<and> map_sum id serialize (ParseMessage '':a@b! X'') = Inr '':a@b X''
   \<and> map_sum id fields (ParseMessage '':a@b X'')
     = Inr (''X'', Some [], Some \<lparr>Name = ''a'', User = [], Host = ''b''\<rparr>, [])
   \<and> map_sum id fields (ParseMessage '':nick!@ho!st X'')
     = Inr (''X'', Some [], Some \<lparr>Name = ''nick'', User = [], Host = ''ho!st''\<rparr>, [])
   \<and> map_sum id serialize (ParseMessage '':nick!@ho!st X'') = Inr '':nick@ho!st X''
   \<and> map_sum id fields (ParseMessage '':nick@ho!st X'')
     = Inr (''X'', Some [], Some \<lparr>Name = ''nick@ho'', User = ''st'', Host = []\<rparr>, [])
   \<and> map_sum id fields (ParseMessage '': :x'')
     = Inr ('':x'', Some [], Some \<lparr>Name = [], User = [], Host = []\<rparr>, [])
   \<and> map_sum id serialize (ParseMessage '': :x'') = Inr '':x''
   \<and> map_sum id fields (ParseMessage '':x'')
     = Inr ([], Some [], Some \<lparr>Name = ''x'', User = [], Host = []\<rparr>, [])
   \<and> map_sum id fields (ParseMessage ''CMD  :'')
     = Inr (''CMD'', Some [[]], Some \<lparr>Name = [], User = [], Host = []\<rparr>, [])
   \<and> map_sum id serialize (ParseMessage ''CMD  :'') = Inr ''CMD ''
   \<and> map_sum id fields (ParseMessage ''CMD '')
     = Inr (''CMD'', Some [], Some \<lparr>Name = [], User = [], Host = []\<rparr>, [])"
  by code_simp

section \<open>The earlier revision\<close>

text \<open>
  C1: \<open>ParseMessage\<close> never panics, the empty string included, and returns a message whose
  \<open>Params\<close> is not nil.  The revision of \<open>src/unnamed/part_000\<close> (lines 137-171) does
  neither: on the empty string the read of \<open>l[0]\<close> at line 139 panics, and on \<open>"PING"\<close> it
  returns at lines 150-152 with \<open>Params\<close> nil.
\<close>

theorem ParseMessage_old_crashes:
  "ParseMessage_old [] = Inl IndexOutOfRange
   \<and> ParseMessage_old ''PING''
     = Inr \<lparr>Command_old = ''PING'', Params_old = None, Prefix_old = [], Raw_old = ''PING'',
            User_old = [], Txt_old = []\<rparr>"
  by code_simp

text \<open>
  C5: a line whose params section is absent and whose text section is a lone colon yields
  the empty text.  The revision of \<open>src/unnamed/part_000\<close> (lines 163-169) strips the
  colon only when the text is longer than one byte: on \<open>"PING :"\<close> the text is \<open>":"\<close> (and
  \<open>Params\<close> is nil).
\<close>

theorem ParseMessage_old_lone_colon:
  "ParseMessage_old ''PING :''
     = Inr \<lparr>Command_old = ''PING'', Params_old = None, Prefix_old = [],
            Raw_old = ''PING :'', User_old = [], Txt_old = '':''\<rparr>"
  by code_simp

section \<open>Sending\<close>

lemma Lock_free [simp]: "Lock False = Some True"
  by (simp add: Lock_def)

lemma Unlock_simp [simp]: "Unlock m = False"
  by (simp add: Unlock_def)

text \<open>
  C7: for every string \<open>l\<close>, \<open>Send(l)\<close> passes to the stream's \<open>Write\<close>, in one call, the
  bytes of \<open>l\<close> followed by carriage return and line feed, through \<open>Conn.Write\<close>, and
  returns the error of that call: an error exactly when the stream's \<open>Write\<close> fails.  (No
  other \<open>Write\<close> or \<open>Send\<close> is in flight on the connection: the write lock is free.)
\<close>

theorem Send_writes_line:
  assumes "\<not> wl c"
  shows "Send io l c =
           (case Write_rwc io (l @ [CHR 0x0D, CHR 0x0A]) (rwc c) of
              None \<Rightarrow> None
            | Some ((n, e), s') \<Rightarrow> Some (e, c\<lparr>rwc := s'\<rparr>))
       \<and> Send io l c =
           (case Write io (l @ [CHR 0x0D, CHR 0x0A]) c of
              None \<Rightarrow> None
            | Some ((n, e), c') \<Rightarrow> Some (e, c'))"
proof -
  have "c\<lparr>rwc := s', wl := False\<rparr> = c\<lparr>rwc := s'\<rparr>" for s'
    using assms by (cases c) simp
  then show ?thesis using assms
    by (simp add: Send_def Write_def split: option.splits prod.splits)
qed

theorem Send_writes_line_witness:
  "Send pipe_io ''PING'' (NewConn \<lparr>inbox = [], closed = False, outbox = []\<rparr>)
     = Some (None, NewConn \<lparr>inbox = [], closed = False,
                             outbox = [''PING'' @ [CHR 0x0D, CHR 0x0A]]\<rparr>)
   \<and> Send pipe_io ''PING'' (NewConn \<lparr>inbox = [], closed = True, outbox = []\<rparr>)
     = Some (Some ErrClosed, NewConn \<lparr>inbox = [], closed = True, outbox = []\<rparr>)"
  using Send_writes_line [of "NewConn \<lparr>inbox = [], closed = False, outbox = []\<rparr>"
      pipe_io "''PING''"]
    Send_writes_line [of "NewConn \<lparr>inbox = [], closed = True, outbox = []\<rparr>"
      pipe_io "''PING''"]
  by (simp add: NewConn_def pipe_io_def pipe_Write_def)

section \<open>Reading and writing after Close\<close>

lemma ReadString_buffered:
  "delim \<in> set (buf b) \<Longrightarrow>
   ReadString io delim b s =
     Some ((takeWhile (\<lambda>c. c \<noteq> delim) (buf b) @ [delim], None),
           b\<lparr>buf := tl (dropWhile (\<lambda>c. c \<noteq> delim) (buf b))\<rparr>, s)"
  unfolding ReadString_def by (subst ReadString_loop.simps) simp

lemma fill_closed:
  assumes "closed_stream io e s"
  shows "fill io (Suc i) b s = Some (b\<lparr>err := Some e\<rparr>, s)"
  using assms by (simp add: closed_stream_def)

lemma ReadString_loop_pending:
  "delim \<notin> set (buf b) \<Longrightarrow> err b = Some x \<Longrightarrow>
   ReadString_loop io delim full b s = Some ((full @ buf b, Some x), b\<lparr>buf := [], err := None\<rparr>, s)"
  by (subst ReadString_loop.simps) simp

lemma ReadString_loop_closed:
  assumes cs: "closed_stream io e s" and nd: "delim \<notin> set (buf b)" and ne: "err b = None"
    and small: "length (buf b) < defaultBufSize"
  shows "ReadString_loop io delim full b s
    = Some ((full @ buf b, Some e), b\<lparr>buf := [], err := None\<rparr>, s)"
proof -
  have f: "fill io 100 b s = Some (b\<lparr>err := Some e\<rparr>, s)"
    using fill_closed[OF cs, of 99 b] by simp
  have "ReadString_loop io delim full b s = ReadString_loop io delim full (b\<lparr>err := Some e\<rparr>) s"
    using nd ne small f by (subst ReadString_loop.simps) simp
  also have "\<dots> = Some ((full @ buf b, Some e), b\<lparr>buf := [], err := None\<rparr>, s)"
    using nd ReadString_loop_pending[of delim "b\<lparr>err := Some e\<rparr>" e io full s] by simp
  finally show ?thesis .
qed

lemma ReadString_closed:
  assumes cs: "closed_stream io e s" and nd: "delim \<notin> set (buf b)"
  shows "\<exists>l x. ReadString io delim b s = Some ((l, Some x), b\<lparr>buf := [], err := None\<rparr>, s)
           \<and> (x = e \<or> err b = Some x)"
proof (cases "err b")
  case (Some x)
  then show ?thesis
    using ReadString_loop_pending[OF nd Some, of io "[]" s] by (simp add: ReadString_def)
next
  case None
  show ?thesis
  proof (cases "length (buf b) < defaultBufSize")
    case True
    then show ?thesis
      using ReadString_loop_closed[OF cs nd None True, of "[]"] by (simp add: ReadString_def)
  next
    case False
    have "ReadString_loop io delim [] b s = ReadString_loop io delim (buf b) (b\<lparr>buf := []\<rparr>) s"
      using nd None False by (subst ReadString_loop.simps) simp
    also have "\<dots> = Some ((buf b, Some e), b\<lparr>buf := [], err := None\<rparr>, s)"
      using ReadString_loop_closed[OF cs, of delim "b\<lparr>buf := []\<rparr>" "buf b"] None
      by (simp add: defaultBufSize_def)
    finally show ?thesis by (simp add: ReadString_def)
  qed
qed

lemma Conn_same: "\<not> rl c \<Longrightarrow> c\<lparr>rwc := rwc c, reader := b, rl := False\<rparr> = c\<lparr>reader := b\<rparr>"
  by (cases c) simp

lemma ReadMsg_closed_empty:
  assumes cs: "closed_stream io e (rwc c)" and lk: "\<not> rl c"
    and nd: "CHR 0x0A \<notin> set (buf (reader c))"
  shows "\<exists>x. ReadMsg io c = Some (Returned (Inl x), c\<lparr>reader := (reader c)\<lparr>buf := [], err := None\<rparr>\<rparr>)
            \<and> (x = e \<or> err (reader c) = Some x)"
proof -
  from ReadString_closed[OF cs nd] obtain l x where
    r: "ReadString io (CHR 0x0A) (reader c) (rwc c)
          = Some ((l, Some x), (reader c)\<lparr>buf := [], err := None\<rparr>, rwc c)"
    and x: "x = e \<or> err (reader c) = Some x"
    by blast
  show ?thesis using lk r x Conn_same[OF lk] by (simp add: ReadMsg_def)
qed

lemma ReadMsg_buffered:
  assumes lk: "\<not> rl c" and d: "CHR 0x0A \<in> set (buf (reader c))"
  shows "ReadMsg io c =
     Some (Returned (Inr (parse (takeWhile (\<lambda>x. x \<noteq> CHR 0x0A) (buf (reader c)) @ [CHR 0x0A]))),
           c\<lparr>reader := (reader c)\<lparr>buf := tl (dropWhile (\<lambda>x. x \<noteq> CHR 0x0A) (buf (reader c)))\<rparr>\<rparr>)"
  using lk Conn_same[OF lk] 
  by (simp add: ReadMsg_def ReadString_buffered[OF d] ParseMessage_parse)

lemma Write_closed:
  assumes cs: "closed_stream io e (rwc c)" and lk: "\<not> wl c"
  shows "Write io msg c = Some ((0, Some e), c)"
proof -
  have "c\<lparr>rwc := rwc c, wl := False\<rparr> = c" using lk by (cases c) simp
  with cs lk show ?thesis by (simp add: Write_def closed_stream_def)
qed

lemma after_close_inv:
  assumes h: "\<forall>s r s'. Close_rwc io s = Some (r, s') \<longrightarrow> closed_stream io e s'"
    and a: "after_close io c"
  shows "closed_stream io e (rwc c) \<and> \<not> rl c \<and> \<not> wl c"
  using a
proof (induction rule: after_close.induct)
  case (ac_close c0 r c)
  with h show ?case by (auto simp: Close_def split: option.splits)
next
  case (ac_read c x c')
  then have cs: "closed_stream io e (rwc c)" and lk: "\<not> rl c" and w: "\<not> wl c" by simp_all
  show ?case
  proof (cases "CHR 0x0A \<in> set (buf (reader c))")
    case True
    from ReadMsg_buffered[OF lk True, of io] ac_read.hyps(2) cs lk w show ?thesis by auto
  next
    case False
    from ReadMsg_closed_empty[OF cs lk False] ac_read.hyps(2) cs lk w show ?thesis by auto
  qed
next
  case (ac_write c msg y c')
  then show ?case using Write_closed[of io e c msg] by auto
next
  case (ac_send c l z c')
  then show ?case using Write_closed[of io e c "l @ [CHR 0x0D, CHR 0x0A]"]
    by (auto simp: Send_def)
qed

text \<open>
  C8, as the code has it: on a connection whose stream fails every read and write once it
  is closed, after \<open>Close\<close> every \<open>Write\<close> fails with the stream's error, and every
  \<open>ReadMsg\<close> called while the line buffer holds no line feed fails with an error (the
  stream's, or a read error that was pending) and returns at once.  A \<open>ReadMsg\<close> called
  while the buffer still holds a complete line returns that line's message.
\<close>

theorem after_close_fails:
  assumes "\<forall>s r s'. Close_rwc io s = Some (r, s') \<longrightarrow> closed_stream io e s'"
    and "after_close io c"
  shows "Write io msg c = Some ((0, Some e), c)
       \<and> (CHR 0x0A \<notin> set (buf (reader c)) \<longrightarrow>
            (\<exists>x. ReadMsg io c
                    = Some (Returned (Inl x), c\<lparr>reader := (reader c)\<lparr>buf := [], err := None\<rparr>\<rparr>)
                  \<and> (x = e \<or> err (reader c) = Some x)))
       \<and> (CHR 0x0A \<in> set (buf (reader c)) \<longrightarrow>
            (\<exists>m. ReadMsg io c
                    = Some (Returned (Inr m),
                        c\<lparr>reader := (reader c)\<lparr>buf :=
                             tl (dropWhile (\<lambda>x. x \<noteq> CHR 0x0A) (buf (reader c)))\<rparr>\<rparr>)
                  \<and> Raw m = takeWhile (\<lambda>x. x \<noteq> CHR 0x0A) (buf (reader c)) @ [CHR 0x0A]))"
proof -
  from after_close_inv[OF assms] have cs: "closed_stream io e (rwc c)"
    and r: "\<not> rl c" and w: "\<not> wl c" by simp_all
  have "Raw (parse l) = l" for l by (simp add: parse_def split: prod.splits)
  then show ?thesis
    using Write_closed[OF cs w] ReadMsg_closed_empty[OF cs r] ReadMsg_buffered[OF r, of io]
    by auto
qed

lemma pipe_honours_close:
  "\<forall>s r s'. Close_rwc pipe_io s = Some (r, s') \<longrightarrow> closed_stream pipe_io ErrClosed s'"
  by (auto simp: pipe_io_def pipe_Close_def closed_stream_def pipe_Read_def pipe_Write_def
      split: if_splits)

theorem after_close_fails_witness:
  "Write pipe_io ''PONG''
      \<lparr>rwc = \<lparr>inbox = [''PING''], closed = True, outbox = []\<rparr>,
       reader = \<lparr>buf = [], err = None\<rparr>, rl = False, wl = False\<rparr>
     = Some ((0, Some ErrClosed),
         \<lparr>rwc = \<lparr>inbox = [''PING''], closed = True, outbox = []\<rparr>,
          reader = \<lparr>buf = [], err = None\<rparr>, rl = False, wl = False\<rparr>)
   \<and> ReadMsg pipe_io
      \<lparr>rwc = \<lparr>inbox = [''PING''], closed = True, outbox = []\<rparr>,
       reader = \<lparr>buf = [], err = None\<rparr>, rl = False, wl = False\<rparr>
     = Some (Returned (Inl ErrClosed),
         \<lparr>rwc = \<lparr>inbox = [''PING''], closed = True, outbox = []\<rparr>,
          reader = \<lparr>buf = [], err = None\<rparr>, rl = False, wl = False\<rparr>)"
proof -
  have "Close pipe_io (NewConn \<lparr>inbox = [''PING''], closed = False, outbox = []\<rparr>)
      = Some (None, \<lparr>rwc = \<lparr>inbox = [''PING''], closed = True, outbox = []\<rparr>,
          reader = \<lparr>buf = [], err = None\<rparr>, rl = False, wl = False\<rparr>)"
    by (simp add: Close_def NewConn_def pipe_io_def pipe_Close_def)
  then have "after_close pipe_io \<lparr>rwc = \<lparr>inbox = [''PING''], closed = True, outbox = []\<rparr>,
          reader = \<lparr>buf = [], err = None\<rparr>, rl = False, wl = False\<rparr>"
    by (rule after_close.ac_close[rotated 2]) (simp_all add: NewConn_def)
  from after_close_fails [OF pipe_honours_close this, of "''PONG''"] show ?thesis by simp
qed

text \<open>
  The stream delivers two lines in one chunk; the first \<open>ReadMsg\<close> buffers both and
  returns the first; after \<open>Close\<close>, \<open>ReadMsg\<close> returns the second from the buffer.
\<close>

theorem ReadMsg_after_Close_succeeds:
  "ReadMsg pipe_io
      (NewConn \<lparr>inbox = [''PING'' @ [CHR 0x0D, CHR 0x0A] @ ''PONG'' @ [CHR 0x0D, CHR 0x0A]],
                closed = False, outbox = []\<rparr>)
     = Some (Returned (Inr \<lparr>Command = ''PING'' @ [CHR 0x0D, CHR 0x0A], Params = Some [],
                Prefix = Some \<lparr>Name = [], User = [], Host = []\<rparr>,
                Raw = ''PING'' @ [CHR 0x0D, CHR 0x0A], Txt = []\<rparr>),
         \<lparr>rwc = \<lparr>inbox = [], closed = False, outbox = []\<rparr>,
          reader = \<lparr>buf = ''PONG'' @ [CHR 0x0D, CHR 0x0A], err = None\<rparr>,
          rl = False, wl = False\<rparr>)
   \<and> Close pipe_io
         \<lparr>rwc = \<lparr>inbox = [], closed = False, outbox = []\<rparr>,
          reader = \<lparr>buf = ''PONG'' @ [CHR 0x0D, CHR 0x0A], err = None\<rparr>,
          rl = False, wl = False\<rparr>
     = Some (None,
         \<lparr>rwc = \<lparr>inbox = [], closed = True, outbox = []\<rparr>,
          reader = \<lparr>buf = ''PONG'' @ [CHR 0x0D, CHR 0x0A], err = None\<rparr>,
          rl = False, wl = False\<rparr>)
   \<and> ReadMsg pipe_io
         \<lparr>rwc = \<lparr>inbox = [], closed = True, outbox = []\<rparr>,
          reader = \<lparr>buf = ''PONG'' @ [CHR 0x0D, CHR 0x0A], err = None\<rparr>,
          rl = False, wl = False\<rparr>
     = Some (Returned (Inr \<lparr>Command = ''PONG'' @ [CHR 0x0D, CHR 0x0A], Params = Some [],
                Prefix = Some \<lparr>Name = [], User = [], Host = []\<rparr>,
                Raw = ''PONG'' @ [CHR 0x0D, CHR 0x0A], Txt = []\<rparr>),
         \<lparr>rwc = \<lparr>inbox = [], closed = True, outbox = []\<rparr>,
          reader = \<lparr>buf = [], err = None\<rparr>, rl = False, wl = False\<rparr>)"
  by code_simp

section \<open>The line terminator\<close>

lemma ReadString_loop_ends:
  assumes "ReadString_loop io delim full b s = Some y"
  shows "snd (fst y) = None \<longrightarrow> fst (fst y) \<noteq> [] \<and> last (fst (fst y)) = delim"
proof (rule ReadString_loop.raw_induct[where P = "\<lambda>io delim full b s y.
    snd (fst y) = None \<longrightarrow> fst (fst y) \<noteq> [] \<and> last (fst (fst y)) = delim", OF _ assms])
  fix loop :: "'a ReadWriteCloser \<Rightarrow> char \<Rightarrow> string \<Rightarrow> Reader \<Rightarrow> 'a
    \<Rightarrow> ((string \<times> error option) \<times> Reader \<times> 'a) option"
  fix io delim full b s y
  assume ih: "\<And>io delim full b s y. loop io delim full b s = Some y \<Longrightarrow>
    snd (fst y) = None \<longrightarrow> fst (fst y) \<noteq> [] \<and> last (fst (fst y)) = delim"
  assume step: "(if delim \<in> set (buf b)
      then Some ((full @ takeWhile (\<lambda>c. c \<noteq> delim) (buf b) @ [delim], None),
                 b\<lparr>buf := tl (dropWhile (\<lambda>c. c \<noteq> delim) (buf b))\<rparr>, s)
      else if err b \<noteq> None
      then Some ((full @ buf b, err b), b\<lparr>buf := [], err := None\<rparr>, s)
      else if length (buf b) \<ge> defaultBufSize
      then loop io delim (full @ buf b) (b\<lparr>buf := []\<rparr>) s
      else (case fill io 100 b s of
              None \<Rightarrow> None
            | Some (b', s') \<Rightarrow> loop io delim full b' s')) = Some y"
  show "snd (fst y) = None \<longrightarrow> fst (fst y) \<noteq> [] \<and> last (fst (fst y)) = delim"
  proof (cases "delim \<in> set (buf b)")
    case True
    with step show ?thesis by auto
  next
    case nd: False
    show ?thesis
    proof (cases "err b")
      case (Some x)
      with nd step show ?thesis by auto
    next
      case None
      show ?thesis
      proof (cases "defaultBufSize \<le> length (buf b)")
        case True
        with nd None step have "loop io delim (full @ buf b) (b\<lparr>buf := []\<rparr>) s = Some y"
          by simp
        then show ?thesis by (rule ih)
      next
        case False
        with nd None step obtain b' s' where "loop io delim full b' s' = Some y"
          by (auto split: option.splits)
        then show ?thesis by (rule ih)
      qed
    qed
  qed
qed

lemma ParseMessage_ping:
  "ParseMessage (''PING'' @ [CHR 0x0D, CHR 0x0A]) =
     Inr \<lparr>Command = ''PING'' @ [CHR 0x0D, CHR 0x0A], Params = Some [],
          Prefix = Some \<lparr>Name = [], User = [], Host = []\<rparr>,
          Raw = ''PING'' @ [CHR 0x0D, CHR 0x0A], Txt = []\<rparr>"
  by code_simp

text \<open>
  C10: \<open>ReadMsg\<close> passes the line \<open>ReadString\<close> returns to \<open>ParseMessage\<close> as it is, and that
  line ends with its line feed; so when the line read is \<open>"PING\r\n"\<close>, the command of the
  message returned is \<open>"PING\r\n"\<close>.  (No other \<open>ReadMsg\<close> is in flight: the read lock is
  free.)
\<close>

theorem ReadMsg_keeps_terminator:
  assumes "\<not> rl c"
    and "ReadString io (CHR 0x0A) (reader c) (rwc c) = Some ((l, None), b', s')"
  shows "\<exists>m. ReadMsg io c = Some (Returned (Inr m), c\<lparr>rwc := s', reader := b'\<rparr>)
           \<and> ParseMessage l = Inr m \<and> l \<noteq> [] \<and> last l = CHR 0x0A
           \<and> (l = ''PING'' @ [CHR 0x0D, CHR 0x0A]
                \<longrightarrow> Command m = ''PING'' @ [CHR 0x0D, CHR 0x0A])"
proof -
  have e: "c\<lparr>rwc := s', reader := b', rl := False\<rparr> = c\<lparr>rwc := s', reader := b'\<rparr>"
    using assms(1) by (cases c) simp
  have "l \<noteq> [] \<and> last l = CHR 0x0A"
    using ReadString_loop_ends[OF assms(2)[unfolded ReadString_def]] by simp
  moreover have "ReadMsg io c = Some (Returned (Inr (parse l)), c\<lparr>rwc := s', reader := b'\<rparr>)"
    using assms e by (simp add: ReadMsg_def ParseMessage_parse)
  moreover have "l = ''PING'' @ [CHR 0x0D, CHR 0x0A]
      \<longrightarrow> Command (parse l) = ''PING'' @ [CHR 0x0D, CHR 0x0A]"
    using ParseMessage_ping by (auto simp: ParseMessage_parse)
  ultimately show ?thesis by (simp add: ParseMessage_parse)
qed

lemma ReadString_ping_chunks:
  "ReadString pipe_io (CHR 0x0A) \<lparr>buf = [], err = None\<rparr>
      \<lparr>inbox = [''PI'', ''NG'' @ [CHR 0x0D], CHR 0x0A # ''PONG''], closed = False, outbox = []\<rparr>
    = Some ((''PING'' @ [CHR 0x0D, CHR 0x0A], None), \<lparr>buf = ''PONG'', err = None\<rparr>,
        \<lparr>inbox = [], closed = False, outbox = []\<rparr>)"
  by code_simp

theorem ReadMsg_keeps_terminator_witness:
  "\<exists>m. ReadMsg pipe_io
        (NewConn \<lparr>inbox = [''PI'', ''NG'' @ [CHR 0x0D], CHR 0x0A # ''PONG''],
                  closed = False, outbox = []\<rparr>)
       = Some (Returned (Inr m),
           \<lparr>rwc = \<lparr>inbox = [], closed = False, outbox = []\<rparr>,
            reader = \<lparr>buf = ''PONG'', err = None\<rparr>, rl = False, wl = False\<rparr>)
     \<and> Command m = ''PING'' @ [CHR 0x0D, CHR 0x0A]"
  using ReadMsg_keeps_terminator [of
      "NewConn \<lparr>inbox = [''PI'', ''NG'' @ [CHR 0x0D], CHR 0x0A # ''PONG''],
                closed = False, outbox = []\<rparr>"
      pipe_io "''PING'' @ [CHR 0x0D, CHR 0x0A]" "\<lparr>buf = ''PONG'', err = None\<rparr>"
      "\<lparr>inbox = [], closed = False, outbox = []\<rparr>"]
    ReadString_ping_chunks
  by (auto simp add: NewConn_def)

end
